theory Spec2Isabelle
  imports Main "HOL-Library.Word"
begin

section \<open>Strings\<close>

text \<open>
  JavaScript strings are modelled as \<^typ>\<open>string\<close> (a list of characters). The helpers
  below are the string methods the converters call.
\<close>

text \<open>\<^verbatim>\<open>str.endsWith(s)\<close>\<close>

definition endsWith :: "string \<Rightarrow> string \<Rightarrow> bool" where
  "endsWith str s = (length s \<le> length str \<and> drop (length str - length s) str = s)"

text \<open>\<^verbatim>\<open>str.startsWith(s)\<close>, used to read the anchored regular expressions.\<close>

definition startsWith :: "string \<Rightarrow> string \<Rightarrow> bool" where
  "startsWith str s = (take (length s) str = s)"

text \<open>\<^verbatim>\<open>str.split(sep)\<close> for a separator of one character. It never returns the
  empty array: \<^verbatim>\<open>"".split("/")\<close> is \<^verbatim>\<open>[""]\<close>.\<close>

fun split :: "char \<Rightarrow> string \<Rightarrow> string list" where
  "split sep [] = [[]]"
| "split sep (c # s) =
     (if c = sep then [] # split sep s
      else (case split sep s of
              [] \<Rightarrow> [[c]]
            | seg # segs \<Rightarrow> (c # seg) # segs))"

section \<open>Asset resolver: \<^verbatim>\<open>resolveImage\<close> of \<^verbatim>\<open>convertToDocx\<close>\<close>

text \<open>
  An \<^verbatim>\<open>ArrayBuffer\<close> is its bytes. The \<^verbatim>\<open>Map<string, ArrayBuffer>\<close> is the list of
  its entries in insertion order, which is the order \<^verbatim>\<open>images.entries()\<close> iterates in;
  \<^verbatim>\<open>has\<close> and \<^verbatim>\<open>get\<close> look a key up.
\<close>

type_synonym arrayBuffer = "8 word list"

type_synonym assets = "(string \<times> arrayBuffer) list"

definition has :: "assets \<Rightarrow> string \<Rightarrow> bool" where
  "has images k = (k \<in> set (map fst images))"

definition get :: "assets \<Rightarrow> string \<Rightarrow> arrayBuffer option" where
  "get images k = map_of images k"

text \<open>\<^verbatim>\<open>href.replace(/^\.?\//, '')\<close>: one leading \<^verbatim>\<open>./\<close> or \<^verbatim>\<open>/\<close> is removed.\<close>

definition normalizeHref :: "string \<Rightarrow> string" where
  "normalizeHref href =
     (if startsWith href ''./'' then drop 2 href
      else if startsWith href ''/'' then drop 1 href
      else href)"

text \<open>\<^verbatim>\<open>href.split('/').pop() || ''\<close>: the last segment (an empty last segment is
  already the empty string).\<close>

definition fileName :: "string \<Rightarrow> string" where
  "fileName href = last (split CHR ''/'' href)"

text \<open>Step 4, the loop over \<^verbatim>\<open>images.entries()\<close>.\<close>

fun deepSearch :: "assets \<Rightarrow> string \<Rightarrow> string \<Rightarrow> arrayBuffer option" where
  "deepSearch [] href normalized = None"
| "deepSearch ((key, val) # rest) href normalized =
     (if endsWith key href \<or> endsWith key normalized then Some val
      else deepSearch rest href normalized)"

definition resolveImage :: "assets \<Rightarrow> string \<Rightarrow> arrayBuffer option" where
  "resolveImage images href =
     (if has images href then get images href
      else let normalized = normalizeHref href in
        if has images normalized then get images normalized
        else let fileName = fileName href in
          if has images fileName then get images fileName
          else deepSearch images href normalized)"

text \<open>
  The same cascade, returning beside the payload the step that returned it. It is
  \<^const>\<open>resolveImage\<close> with every \<^verbatim>\<open>return\<close> labelled (lemma \<open>resolveImage_via\<close>).
\<close>

datatype step = Exact | NormalizedPath | Basename | SuffixScan

definition resolveVia :: "assets \<Rightarrow> string \<Rightarrow> (step \<times> arrayBuffer) option" where
  "resolveVia images href =
     (if has images href then map_option (Pair Exact) (get images href)
      else let normalized = normalizeHref href in
        if has images normalized then map_option (Pair NormalizedPath) (get images normalized)
        else let fileName = fileName href in
          if has images fileName then map_option (Pair Basename) (get images fileName)
          else map_option (Pair SuffixScan) (deepSearch images href normalized))"

text \<open>
  The resolution order in the specification's words: what each of the four steps finds
  on its own, and the earliest step, in the fixed order, that finds something.
\<close>

fun stepFinds :: "step \<Rightarrow> assets \<Rightarrow> string \<Rightarrow> arrayBuffer option" where
  "stepFinds Exact images href = map_of images href"
| "stepFinds NormalizedPath images href = map_of images (normalizeHref href)"
| "stepFinds Basename images href = map_of images (fileName href)"
| "stepFinds SuffixScan images href =
     map_option snd
       (find (\<lambda>(key, val). endsWith key href \<or> endsWith key (normalizeHref href)) images)"

definition earliestStep :: "assets \<Rightarrow> string \<Rightarrow> (step \<times> arrayBuffer) option" where
  "earliestStep images href =
     (case filter (\<lambda>st. stepFinds st images href \<noteq> None)
             [Exact, NormalizedPath, Basename, SuffixScan] of
        [] \<Rightarrow> None
      | st # _ \<Rightarrow> map_option (Pair st) (stepFinds st images href))"

section \<open>Markdown compiler: \<^verbatim>\<open>convertToDocx\<close>\<close>

text \<open>The log sink \<^verbatim>\<open>onLog(msg, level)\<close> appends an entry to the log.\<close>

datatype logLevel = Info | Success | Warning | Error

type_synonym logEntry = "string \<times> logLevel"

text \<open>
  The objects of the \<^verbatim>\<open>docx\<close> library are the options they are constructed with. A
  field that a constructor call leaves out is \<open>None\<close> (or \<open>False\<close>, or the empty list).
\<close>

datatype headingLevel = HEADING_1 | HEADING_2 | HEADING_3 | HEADING_4

record textRun =
  tr_text :: "string option"
  tr_bold :: bool
  tr_italic :: bool
  tr_font :: "string option"
  tr_size :: "nat option"
  tr_color :: "string option"
  tr_shading :: "string option"
  tr_style :: "string option"
  tr_underline :: bool
  tr_break :: "nat option"

definition emptyRun :: textRun where
  "emptyRun = \<lparr>tr_text = None, tr_bold = False, tr_italic = False, tr_font = None,
     tr_size = None, tr_color = None, tr_shading = None, tr_style = None,
     tr_underline = False, tr_break = None\<rparr>"

datatype run =
    TextRun textRun
  | ImageRun (data: arrayBuffer) (width: nat) (height: nat)
  | ExternalHyperlink "textRun list" string

datatype borderSide = BorderTop | BorderBottom | BorderLeft | BorderRight

text \<open>A border line: side, color, space, size (the style is always \<^verbatim>\<open>SINGLE\<close>).\<close>

type_synonym border = "borderSide \<times> string \<times> nat \<times> nat"

record spacing =
  sp_before :: "nat option"
  sp_after :: "nat option"
  sp_line :: "nat option"

record docxParagraph =
  p_text :: "string option"
  p_heading :: "headingLevel option"
  p_children :: "run list option"
  p_bullet :: "nat option"
  p_shading :: "string option"
  p_border :: "border list"
  p_spacing :: "spacing option"
  p_indent :: "(nat \<times> nat) option"

definition emptyParagraph :: docxParagraph where
  "emptyParagraph = \<lparr>p_text = None, p_heading = None, p_children = None, p_bullet = None,
     p_shading = None, p_border = [], p_spacing = None, p_indent = None\<rparr>"

text \<open>
  The tokens of \<^verbatim>\<open>marked.lexer\<close>, by their \<^verbatim>\<open>type\<close>, with the fields the converter
  reads. \<open>OtherSub\<close> is an inline token of any other type; \<open>OtherTok\<close> is a block token
  of any other type, with its \<^verbatim>\<open>text\<close> when it has one. A paragraph token carries
  its inline \<^verbatim>\<open>tokens\<close>, when it has them, and its raw \<^verbatim>\<open>text\<close>.
\<close>

datatype subToken =
    ImageSub string
  | LinkSub string string
  | StrongSub string
  | EmSub string
  | CodespanSub string
  | TextSub string
  | BrSub
  | OtherSub string

datatype token =
    HeadingTok nat string
  | ParagraphTok "subToken list option" string
  | ListTok "string list"
  | CodeTok string
  | HrTok
  | OtherTok string "string option"

text \<open>The nested conditional of the \<^verbatim>\<open>heading\<close> case.\<close>

definition heading :: "nat \<Rightarrow> headingLevel" where
  "heading depth =
     (if depth = 1 then HEADING_1
      else if depth = 2 then HEADING_2
      else if depth = 3 then HEADING_3
      else HEADING_4)"

text \<open>
  One iteration of the loop over \<^verbatim>\<open>token.tokens\<close>: the runs it pushes to
  \<^verbatim>\<open>children\<close> and the entries it logs. An \<^verbatim>\<open>ArrayBuffer\<close> is truthy, so
  \<^verbatim>\<open>if (imgData)\<close> asks whether \<^verbatim>\<open>resolveImage\<close> returned one.
  In \<open>LinkSub text href\<close> the text comes first.
\<close>

fun convertSubToken :: "assets \<Rightarrow> subToken \<Rightarrow> run list \<times> logEntry list" where
  "convertSubToken images (ImageSub href) =
     (case resolveImage images href of
        Some imgData \<Rightarrow>
          ([ImageRun imgData 500 300], [(''Matched asset: '' @ href, Success)])
      | None \<Rightarrow>
          ([TextRun (emptyRun\<lparr>
              tr_text := Some (CHR 0x0A # ''[IMAGE NOT LOADED: '' @ href @ '']'' @ [CHR 0x0A]),
              tr_color := Some ''FF0000'', tr_bold := True\<rparr>)],
           [(''Image link broken or missing: '' @ href, Warning)]))"
| "convertSubToken images (LinkSub text href) =
     ([ExternalHyperlink
         [emptyRun\<lparr>tr_text := Some text, tr_style := Some ''Hyperlink'',
            tr_color := Some ''0563C1'', tr_underline := True\<rparr>] href], [])"
| "convertSubToken images (StrongSub text) =
     ([TextRun (emptyRun\<lparr>tr_text := Some text, tr_bold := True\<rparr>)], [])"
| "convertSubToken images (EmSub text) =
     ([TextRun (emptyRun\<lparr>tr_text := Some text, tr_italic := True\<rparr>)], [])"
| "convertSubToken images (CodespanSub text) =
     ([TextRun (emptyRun\<lparr>tr_text := Some text, tr_font := Some ''Consolas'',
         tr_shading := Some ''F3F4F6'', tr_color := Some ''D11111''\<rparr>)], [])"
| "convertSubToken images (TextSub text) =
     ([TextRun (emptyRun\<lparr>tr_text := Some text\<rparr>)], [])"
| "convertSubToken images BrSub =
     ([TextRun (emptyRun\<lparr>tr_break := Some 1\<rparr>)], [])"
| "convertSubToken images (OtherSub ty) = ([], [])"

text \<open>The loop over \<^verbatim>\<open>token.tokens\<close>, on the state \<^verbatim>\<open>children\<close> and log.\<close>

fun paragraphChildren ::
  "assets \<Rightarrow> subToken list \<Rightarrow> run list \<times> logEntry list \<Rightarrow> run list \<times> logEntry list" where
  "paragraphChildren images [] st = st"
| "paragraphChildren images (subToken # rest) (children, lg) =
     (case convertSubToken images subToken of
        (runs, msgs) \<Rightarrow> paragraphChildren images rest (children @ runs, lg @ msgs))"

text \<open>The \<^verbatim>\<open>code\<close> case: \<^verbatim>\<open>lines.map((line, index) => new TextRun(...))\<close>.\<close>

definition codeRuns :: "string \<Rightarrow> run list" where
  "codeRuns text =
     map (\<lambda>(index, line).
            TextRun (emptyRun\<lparr>tr_text := Some line, tr_font := Some ''Consolas'',
              tr_size := Some 18, tr_break := Some (if index > 0 then 1 else 0)\<rparr>))
         (enumerate 0 (split (CHR 0x0A) text))"

definition codeBorder :: "border list" where
  "codeBorder = [(BorderTop, ''E2E8F0'', 8, 4), (BorderBottom, ''E2E8F0'', 8, 4),
     (BorderLeft, ''E2E8F0'', 8, 4), (BorderRight, ''E2E8F0'', 8, 4)]"

text \<open>One iteration of the loop over the tokens: the paragraphs it pushes to
  \<^verbatim>\<open>sections\<close> and the entries it logs.\<close>

fun convertToken :: "assets \<Rightarrow> token \<Rightarrow> docxParagraph list \<times> logEntry list" where
  "convertToken images (HeadingTok depth text) =
     ([emptyParagraph\<lparr>p_text := Some text, p_heading := Some (heading depth),
         p_spacing := Some \<lparr>sp_before = Some 400, sp_after = Some 200, sp_line = None\<rparr>\<rparr>],
      [])"
| "convertToken images (ParagraphTok tokens text) =
     (case (case tokens of
              Some subTokens \<Rightarrow> paragraphChildren images subTokens ([], [])
            | None \<Rightarrow> ([TextRun (emptyRun\<lparr>tr_text := Some text\<rparr>)], [])) of
        (children, msgs) \<Rightarrow>
          ([emptyParagraph\<lparr>p_children := Some children,
              p_spacing := Some \<lparr>sp_before = None, sp_after = Some 150, sp_line = None\<rparr>\<rparr>],
           msgs))"
| "convertToken images (ListTok items) =
     (map (\<lambda>item. emptyParagraph\<lparr>p_text := Some item, p_bullet := Some 0,
             p_spacing := Some \<lparr>sp_before = None, sp_after = Some 100, sp_line = None\<rparr>\<rparr>)
        items, [])"
| "convertToken images (CodeTok text) =
     ([emptyParagraph\<lparr>p_children := Some (codeRuns text), p_shading := Some ''F8F9FA'',
         p_border := codeBorder,
         p_spacing := Some \<lparr>sp_before = Some 240, sp_after = Some 240, sp_line = Some 320\<rparr>,
         p_indent := Some (240, 240)\<rparr>], [])"
| "convertToken images HrTok =
     ([emptyParagraph\<lparr>p_border := [(BorderBottom, ''CBD5E1'', 1, 6)],
         p_spacing := Some \<lparr>sp_before = Some 200, sp_after = Some 200, sp_line = None\<rparr>\<rparr>],
      [])"
| "convertToken images (OtherTok ty text) =
     (case text of
        None \<Rightarrow> ([], [])
      | Some t \<Rightarrow> if t = [] then ([], []) else ([emptyParagraph\<lparr>p_text := Some t\<rparr>], []))"

text \<open>The loop over the tokens, on the state \<^verbatim>\<open>sections\<close> and log.\<close>

fun tokenLoop ::
  "assets \<Rightarrow> token list \<Rightarrow> docxParagraph list \<times> logEntry list
     \<Rightarrow> docxParagraph list \<times> logEntry list" where
  "tokenLoop images [] st = st"
| "tokenLoop images (token # rest) (sections, lg) =
     (case convertToken images token of
        (paras, msgs) \<Rightarrow> tokenLoop images rest (sections @ paras, lg @ msgs))"

text \<open>
  The whole function. The tokenizer \<^verbatim>\<open>marked.lexer\<close> and the encoder
  \<^verbatim>\<open>Packer.toBlob\<close> are libraries: they are parameters, and the encoder may fail
  (\<open>Inl\<close>), which is the only way the function throws.
\<close>

definition convertToDocx ::
  "(string \<Rightarrow> token list) \<Rightarrow> (docxParagraph list \<Rightarrow> 'e + 'b) \<Rightarrow> string \<Rightarrow> assets
     \<Rightarrow> logEntry list \<Rightarrow> ('e + 'b) \<times> logEntry list" where
  "convertToDocx lexer toBlob markdown images lg =
     (case tokenLoop images (lexer markdown)
             ([], lg @ [(''Initializing DOCX engine...'', Info)]) of
        (sections, lg') \<Rightarrow>
          (toBlob sections, lg' @ [(''Finalizing DOCX binary data...'', Info)]))"

text \<open>What a run renders: its text, and the number of line breaks before it.\<close>

fun runText :: "run \<Rightarrow> string option" where
  "runText (TextRun r) = tr_text r"
| "runText (ImageRun d w h) = None"
| "runText (ExternalHyperlink rs link) = None"

fun runBreaks :: "run \<Rightarrow> nat" where
  "runBreaks (TextRun r) = (case tr_break r of None \<Rightarrow> 0 | Some n \<Rightarrow> n)"
| "runBreaks (ImageRun d w h) = 0"
| "runBreaks (ExternalHyperlink rs link) = 0"

text \<open>The runs and the log entries of a list of inline tokens, in order.\<close>

definition inlineRuns :: "assets \<Rightarrow> subToken list \<Rightarrow> run list" where
  "inlineRuns images subTokens = concat (map (\<lambda>t. fst (convertSubToken images t)) subTokens)"

definition inlineLogs :: "assets \<Rightarrow> subToken list \<Rightarrow> logEntry list" where
  "inlineLogs images subTokens = concat (map (\<lambda>t. snd (convertSubToken images t)) subTokens)"

text \<open>The paragraphs and the log entries of a list of tokens, in order.\<close>

definition documentBlocks :: "assets \<Rightarrow> token list \<Rightarrow> docxParagraph list" where
  "documentBlocks images tokens = concat (map (\<lambda>t. fst (convertToken images t)) tokens)"

definition documentLogs :: "assets \<Rightarrow> token list \<Rightarrow> logEntry list" where
  "documentLogs images tokens = concat (map (\<lambda>t. snd (convertToken images t)) tokens)"

text \<open>The heading levels as numbers.\<close>

fun levelNumber :: "headingLevel \<Rightarrow> nat" where
  "levelNumber HEADING_1 = 1"
| "levelNumber HEADING_2 = 2"
| "levelNumber HEADING_3 = 3"
| "levelNumber HEADING_4 = 4"

section \<open>Document extractor: \<^verbatim>\<open>convertDocxToMd\<close>\<close>

text \<open>
  What a \<^verbatim>\<open>catch\<close> can receive: an \<^verbatim>\<open>Error\<close> with its message, or any other value.
\<close>

datatype thrown = ErrorInstance string | OtherThrown string

text \<open>
  \<^verbatim>\<open>mammoth.convertToMarkdown\<close> is a library. Seen from the converter, a run of it
  on an input is a number of calls of the \<^verbatim>\<open>convertImage\<close> callback, one for each
  embedded image it meets, each call receiving the \<^verbatim>\<open>src\<close> that the callback returns,
  and then either the markdown \<^verbatim>\<open>result.value\<close> or a thrown error. The library is a
  parameter of the model: a function from the input bytes to such a run.
\<close>

datatype decoder =
    Resolved string
  | Rejected thrown
  | ImgElement "string \<Rightarrow> decoder"

text \<open>The decimal digits of a number, as the template literal \<^verbatim>\<open>${id}\<close> writes it.\<close>

definition digitChar :: "nat \<Rightarrow> char" where
  "digitChar d = ''0123456789'' ! d"

fun numberToString :: "nat \<Rightarrow> string" where
  "numberToString n =
     (if n < 10 then [digitChar n] else numberToString (n div 10) @ [digitChar (n mod 10)])"

declare numberToString.simps [simp del]

text \<open>
  The callback given to \<^verbatim>\<open>mammoth.images.imgElement\<close>, on the state it closes over:
  the variable \<^verbatim>\<open>imageCounter\<close> and the log. It returns the \<^verbatim>\<open>src\<close> attribute.
  \<open>placeholderSrc\<close> and \<open>assetDetected\<close> are its two template literals, and \<open>n\<close>
  is its constant \<^verbatim>\<open>id\<close>.
\<close>

definition placeholderSrc :: "nat \<Rightarrow> string" where
  "placeholderSrc n = ''IMAGE_PATH_PLACEHOLDER_'' @ numberToString n"

definition assetDetected :: "nat \<Rightarrow> logEntry" where
  "assetDetected n = (''Asset detected: Image #'' @ numberToString n, Success)"

definition convertImage :: "nat \<times> logEntry list \<Rightarrow> string \<times> (nat \<times> logEntry list)" where
  "convertImage st =
     (case st of
        (imageCounter, lg) \<Rightarrow>
          (let n = imageCounter in
             (placeholderSrc n, (imageCounter + 1, lg @ [assetDetected n]))))"

text \<open>A run of the library with this callback.\<close>

primrec runDecoder ::
  "decoder \<Rightarrow> nat \<times> logEntry list \<Rightarrow> (thrown + string) \<times> (nat \<times> logEntry list)" where
  "runDecoder (Resolved markdown) st = (Inr markdown, st)"
| "runDecoder (Rejected e) st = (Inl e, st)"
| "runDecoder (ImgElement continue) st =
     (case convertImage st of (src, st') \<Rightarrow> runDecoder (continue src) st')"

text \<open>
  The two replacements of step 1 are global replacements of a regular expression
  \<^verbatim>\<open>prefix(\d+)suffix\<close> by \<^verbatim>\<open>![](images/figure_$1.png)\<close>. Both suffixes start with a
  character that is not a digit, so the expression matches at a position exactly when
  the prefix stands there, followed by a longest run of digits that is not empty,
  followed by the suffix. \<open>matchPlaceholder\<close> returns the digits and the text after
  the match.
\<close>

definition isDigit :: "char \<Rightarrow> bool" where
  "isDigit c = (c \<in> set ''0123456789'')"

definition matchPlaceholder :: "string \<Rightarrow> string \<Rightarrow> string \<Rightarrow> (string \<times> string) option" where
  "matchPlaceholder pfx sfx s =
     (if startsWith s pfx then
        (let t = drop (length pfx) s;
             ds = takeWhile isDigit t;
             r = dropWhile isDigit t
         in if ds \<noteq> [] \<and> startsWith r sfx then Some (ds, drop (length sfx) r) else None)
      else None)"

lemma matchPlaceholder_shorter:
  assumes "matchPlaceholder pfx sfx s = Some (ds, rest)"
  shows "length rest < length s"
proof -
  let ?t = "drop (length pfx) s"
  from assms have ds: "takeWhile isDigit ?t \<noteq> []"
    and rest: "rest = drop (length sfx) (dropWhile isDigit ?t)"
    by (auto simp: matchPlaceholder_def Let_def split: if_splits)
  have "length (takeWhile isDigit ?t) + length (dropWhile isDigit ?t) = length ?t"
    by (metis length_append takeWhile_dropWhile_id)
  with ds have "length (dropWhile isDigit ?t) < length ?t"
    by (cases "takeWhile isDigit ?t") auto
  with rest show ?thesis
    by simp
qed

text \<open>The global replacement: leftmost matches, none overlapping, scanning on after each.\<close>

function replacePlaceholder :: "string \<Rightarrow> string \<Rightarrow> string \<Rightarrow> string" where
  "replacePlaceholder pfx sfx [] = []"
| "replacePlaceholder pfx sfx (c # s) =
     (case matchPlaceholder pfx sfx (c # s) of
        Some (ds, rest) \<Rightarrow> ''![](images/figure_'' @ ds @ ''.png)'' @ replacePlaceholder pfx sfx rest
      | None \<Rightarrow> c # replacePlaceholder pfx sfx s)"
  by pat_completeness auto
termination
  by (relation "measure (\<lambda>(pfx, sfx, s). length s)") (auto dest: matchPlaceholder_shorter)

text \<open>Step 1: \<^verbatim>\<open>/src="IMAGE_PATH_PLACEHOLDER_(\d+)"/g\<close>, then
  \<^verbatim>\<open>/!\[\]\(IMAGE_PATH_PLACEHOLDER_(\d+)\)/g\<close>.\<close>

definition rewritePlaceholders :: "string \<Rightarrow> string" where
  "rewritePlaceholders markdown =
     replacePlaceholder ''![](IMAGE_PATH_PLACEHOLDER_'' '')''
       (replacePlaceholder (''src='' @ [CHR 0x22] @ ''IMAGE_PATH_PLACEHOLDER_'') [CHR 0x22]
          markdown)"

text \<open>
  A global replacement of \<^verbatim>\<open>/\\([cs])/g\<close> by \<^verbatim>\<open>$1\<close>: where a backslash stands before
  a character of \<open>cs\<close>, the match is the two characters and the character alone is
  written; the scan goes on after the match.
\<close>

fun removeBackslashBefore :: "string \<Rightarrow> string \<Rightarrow> string" where
  "removeBackslashBefore cs [] = []"
| "removeBackslashBefore cs [c] = [c]"
| "removeBackslashBefore cs (c # d # s) =
     (if c = CHR 0x5C \<and> d \<in> set cs then d # removeBackslashBefore cs s
      else c # removeBackslashBefore cs (d # s))"

text \<open>Step 2: \<^verbatim>\<open>/\\([_()\[\]"'])/g\<close>, then \<^verbatim>\<open>/\\\./g\<close>, then \<^verbatim>\<open>/\\-/g\<close>.\<close>

definition escapeCleanup :: "string \<Rightarrow> string" where
  "escapeCleanup markdown =
     removeBackslashBefore ''-''
       (removeBackslashBefore ''.''
          (removeBackslashBefore (''_()[]'' @ [CHR 0x22, CHR 0x27]) markdown))"

definition postProcess :: "string \<Rightarrow> string" where
  "postProcess markdown = escapeCleanup (rewritePlaceholders markdown)"

text \<open>
  The whole function, on the log. The result is the markdown (\<open>Inr\<close>) or the error
  thrown to the caller (\<open>Inl\<close>).
\<close>

definition convertDocxToMd ::
  "(arrayBuffer \<Rightarrow> decoder) \<Rightarrow> arrayBuffer \<Rightarrow> logEntry list
     \<Rightarrow> (thrown + string) \<times> logEntry list" where
  "convertDocxToMd convertToMarkdown arrayBuffer lg =
     (let imageCounter = 1 in
      case runDecoder (convertToMarkdown arrayBuffer)
             (imageCounter,
              lg @ [(''Analyzing Word structure and identifying assets...'', Info)]) of
        (Inr markdown, (imageCounter', lg')) \<Rightarrow>
          (Inr (postProcess markdown),
           lg' @ [(''Refining document structure...'', Info),
                  (''Base Markdown generated successfully.'', Success)])
      | (Inl error, (imageCounter', lg')) \<Rightarrow>
          (Inl error,
           lg' @ [(''Extraction failed: '' @
                     (case error of
                        ErrorInstance message \<Rightarrow> message
                      | OtherThrown v \<Rightarrow> ''Unknown error''), Error)]))"

text \<open>
  The escape cleanup in the specification's words: a backslash is removed exactly when
  the character after it is an underscore, a parenthesis, a bracket, a double quote, a
  single quote, a period or a hyphen; every other character stays.
\<close>

definition escapable :: "char \<Rightarrow> bool" where
  "escapable c = (c \<in> set (''_()[].-'' @ [CHR 0x22, CHR 0x27]))"

fun stripEscapes :: "string \<Rightarrow> string" where
  "stripEscapes [] = []"
| "stripEscapes (c # s) =
     (if c = CHR 0x5C \<and> s \<noteq> [] \<and> escapable (hd s) then stripEscapes s
      else c # stripEscapes s)"

text \<open>The numbers the callback hands out in a run that starts with the counter at
  \<open>imageCounter\<close>, in order.\<close>

primrec assignedIds :: "decoder \<Rightarrow> nat \<Rightarrow> nat list" where
  "assignedIds (Resolved markdown) imageCounter = []"
| "assignedIds (Rejected e) imageCounter = []"
| "assignedIds (ImgElement continue) imageCounter =
     imageCounter # assignedIds (continue (placeholderSrc imageCounter)) (imageCounter + 1)"






section \<open>Properties of the string helpers\<close>

lemma endsWith_iff: "endsWith str s \<longleftrightarrow> (\<exists>p. str = p @ s)"
proof
  assume "endsWith str s"
  then have "str = take (length str - length s) str @ s"
    by (metis append_take_drop_id endsWith_def)
  then show "\<exists>p. str = p @ s" ..
next
  assume "\<exists>p. str = p @ s"
  then show "endsWith str s"
    by (auto simp: endsWith_def)
qed

lemma split_not_Nil: "split sep s \<noteq> []"
  by (induction s) (auto split: list.splits)

lemma split_no_sep: "sep \<notin> set s \<Longrightarrow> split sep s = [s]"
  by (induction s) auto

lemma split_append_sep: "split sep (a @ sep # b) = split sep a @ split sep b"
proof (induction a)
  case Nil
  show ?case by simp
next
  case (Cons c a)
  obtain seg segs where "split sep a = seg # segs"
    using split_not_Nil [of sep a] by (cases "split sep a") auto
  with Cons show ?case by simp
qed

lemma last_split_append_sep: "last (split sep (a @ sep # b)) = last (split sep b)"
  by (simp add: split_append_sep split_not_Nil)

lemma fileName_no_slash: "CHR ''/'' \<notin> set b \<Longrightarrow> fileName b = b"
  by (simp add: fileName_def split_no_sep)

lemma fileName_after_last_slash:
  "CHR ''/'' \<notin> set b \<Longrightarrow> fileName (dir @ CHR ''/'' # b) = b"
  by (simp add: fileName_def last_split_append_sep split_no_sep)

lemma normalize_dot_slash: "normalizeHref (''./'' @ s) = s"
  by (simp add: normalizeHref_def startsWith_def)

lemma normalize_slash: "normalizeHref (''/'' @ s) = s"
  by (simp add: normalizeHref_def startsWith_def)

lemma normalize_other:
  "\<not> startsWith href ''./'' \<Longrightarrow> \<not> startsWith href ''/'' \<Longrightarrow> normalizeHref href = href"
  by (simp add: normalizeHref_def)

section \<open>Properties of the resolver\<close>

lemma has_iff_get: "has images k \<longleftrightarrow> get images k \<noteq> None"
  by (simp add: has_def get_def map_of_eq_None_iff)

lemma deepSearch_find:
  "deepSearch images href normalized =
     map_option snd (find (\<lambda>(key, val). endsWith key href \<or> endsWith key normalized) images)"
  by (induction images href normalized rule: deepSearch.induct) simp_all

lemma resolveImage_via: "resolveImage images href = map_option snd (resolveVia images href)"
  by (simp add: resolveImage_def resolveVia_def Let_def option.map_comp comp_def option.map_ident)

lemma resolveVia_earliest: "resolveVia images href = earliestStep images href"
proof -
  define hit where
    "hit = find (\<lambda>(key, val). endsWith key href \<or> endsWith key (normalizeHref href)) images"
  have scan: "deepSearch images href (normalizeHref href) = map_option snd hit"
    by (simp add: deepSearch_find hit_def)
  have spec: "stepFinds SuffixScan images href = map_option snd hit"
    by (simp add: hit_def)
  show ?thesis
    unfolding resolveVia_def earliestStep_def Let_def has_iff_get get_def scan
    by (cases "map_of images href"; cases "map_of images (normalizeHref href)";
        cases "map_of images (fileName href)"; cases hit)
       (simp_all add: spec del: stepFinds.simps(4))
qed


text \<open>
  An asset map whose keys satisfy the four steps at once for \<^verbatim>\<open>./a/p.png\<close>: the exact
  key wins; without it the normalized key; without both the basename; the scan is last.
\<close>

lemma resolve_all_steps_example:
  "resolveVia [(''x/a/p.png'', [4]), (''p.png'', [3]), (''a/p.png'', [2]), (''./a/p.png'', [1])]
     ''./a/p.png'' = Some (Exact, [1])
   \<and> resolveVia [(''x/a/p.png'', [4]), (''p.png'', [3]), (''a/p.png'', [2])]
     ''./a/p.png'' = Some (NormalizedPath, [2])
   \<and> resolveVia [(''x/a/p.png'', [4]), (''p.png'', [3])] ''./a/p.png'' = Some (Basename, [3])
   \<and> resolveVia [(''x/a/p.png'', [4])] ''./a/p.png'' = Some (SuffixScan, [4])
   \<and> resolveVia [] ''./a/p.png'' = None"
  by (simp add: resolveVia_def has_def get_def normalizeHref_def startsWith_def fileName_def
      endsWith_def)

text \<open>
  C1 (as the code has it). For every href and every asset map, \<^const>\<open>resolveImage\<close>
  returns the payload found by the earliest of the four steps that finds one, in the
  fixed order: exact key, key equal to the href without one leading \<^verbatim>\<open>./\<close> or
  \<^verbatim>\<open>/\<close>, key equal to the basename of the href, and last the scan for a key that ends
  with the href or its normalized form. The href \<^verbatim>\<open>photo.png\<close> against the map with
  the one key \<^verbatim>\<open>assets/2023/photo.png\<close> resolves through the scan: its basename
  \<^verbatim>\<open>photo.png\<close> is not a key of the map.
\<close>

theorem resolve_earliest_step:
  "resolveVia images href = earliestStep images href
   \<and> resolveImage images href = map_option snd (earliestStep images href)
   \<and> resolveVia [(''assets/2023/photo.png'', bytes)] ''photo.png'' = Some (SuffixScan, bytes)"
proof -
  have "resolveVia [(''assets/2023/photo.png'', bytes)] ''photo.png'' = Some (SuffixScan, bytes)"
    by (simp add: resolveVia_def has_def get_def normalizeHref_def startsWith_def fileName_def
        endsWith_def)
  then show ?thesis
    by (simp only: resolveImage_via resolveVia_earliest simp_thms)
qed

text \<open>
  C1 as stated fails on its own example: for \<^verbatim>\<open>photo.png\<close> against
  \<^verbatim>\<open>{"assets/2023/photo.png": bytes}\<close> the basename step finds nothing, and the payload
  is returned by the suffix scan.
\<close>

theorem photo_resolves_via_scan:
  "stepFinds Basename [(''assets/2023/photo.png'', [0x89, 0x50, 0x4E, 0x47])] ''photo.png'' = None
   \<and> resolveVia [(''assets/2023/photo.png'', [0x89, 0x50, 0x4E, 0x47])] ''photo.png''
       = Some (SuffixScan, [0x89, 0x50, 0x4E, 0x47])
   \<and> resolveVia [(''assets/2023/photo.png'', [0x89, 0x50, 0x4E, 0x47])] ''photo.png''
       \<noteq> Some (Basename, [0x89, 0x50, 0x4E, 0x47])"
  by (simp add: resolveVia_def has_def get_def normalizeHref_def startsWith_def fileName_def
      endsWith_def)

text \<open>
  C3. The payloads of the map are binary, so the string that the scan tests is the key.
  When steps 1 to 3 find nothing, resolution succeeds exactly when some key of the map
  ends with the href or with its normalized form: any such key makes it succeed, the
  payload returned is the one of the first such key in iteration order, and the test
  \<^const>\<open>endsWith\<close> is being a suffix.
\<close>

theorem fallback_scan_succeeds:
  assumes "\<not> has images href"
    and "\<not> has images (normalizeHref href)"
    and "\<not> has images (fileName href)"
    and "(key, val) \<in> set images"
    and "endsWith key href \<or> endsWith key (normalizeHref href)"
  shows "(\<exists>key' val' p. resolveImage images href = Some val' \<and> (key', val') \<in> set images
            \<and> (key' = p @ href \<or> key' = p @ normalizeHref href))
         \<and> resolveImage images href =
             map_option snd
               (find (\<lambda>(k, v). endsWith k href \<or> endsWith k (normalizeHref href)) images)"
proof -
  let ?P = "\<lambda>(k, v). endsWith k href \<or> endsWith k (normalizeHref href)"
  have res: "resolveImage images href = map_option snd (find ?P images)"
    using assms(1-3) by (simp add: resolveImage_def deepSearch_find)
  have "\<exists>x \<in> set images. ?P x"
    using assms(4,5) by (intro bexI [of _ "(key, val)"]) auto
  then obtain k v where hit: "find ?P images = Some (k, v)"
    by (cases "find ?P images") (auto simp: find_None_iff)
  then have "(k, v) \<in> set images" and "endsWith k href \<or> endsWith k (normalizeHref href)"
    by (auto simp: find_Some_iff dest: nth_mem)
  then have "\<exists>p. k = p @ href \<or> k = p @ normalizeHref href"
    by (auto simp: endsWith_iff)
  with \<open>(k, v) \<in> set images\<close> res hit show ?thesis
    by auto
qed

theorem fallback_scan_succeeds_witness:
  "resolveImage [(''docs/logo.svg'', [7]), (''assets/2023/photo.png'', [8]), (''old/photo.png'', [9])]
     ''photo.png'' = Some [8]"
proof -
  let ?images = "[(''docs/logo.svg'', [7::8 word]), (''assets/2023/photo.png'', [8]),
    (''old/photo.png'', [9])]"
  have h1: "\<not> has ?images ''photo.png''"
    by (simp add: has_def)
  have h2: "\<not> has ?images (normalizeHref ''photo.png'')"
    by (simp add: has_def normalizeHref_def startsWith_def)
  have h3: "\<not> has ?images (fileName ''photo.png'')"
    by (simp add: has_def fileName_def)
  have h4: "(''old/photo.png'', [9]) \<in> set ?images"
    by simp
  have h5: "endsWith ''old/photo.png'' ''photo.png''
      \<or> endsWith ''old/photo.png'' (normalizeHref ''photo.png'')"
    by (simp add: endsWith_def)
  from fallback_scan_succeeds [OF h1 h2 h3 h4 h5]
  show ?thesis
    by (simp add: endsWith_def normalizeHref_def startsWith_def)
qed

section \<open>Properties of the compiler\<close>

lemma inlineRuns_simps:
  "inlineRuns images [] = []"
  "inlineRuns images (t # ts) = fst (convertSubToken images t) @ inlineRuns images ts"
  "inlineRuns images (ts @ us) = inlineRuns images ts @ inlineRuns images us"
  by (simp_all add: inlineRuns_def)

lemma inlineLogs_simps:
  "inlineLogs images [] = []"
  "inlineLogs images (t # ts) = snd (convertSubToken images t) @ inlineLogs images ts"
  "inlineLogs images (ts @ us) = inlineLogs images ts @ inlineLogs images us"
  by (simp_all add: inlineLogs_def)

lemma paragraphChildren_eq:
  "paragraphChildren images subTokens (children, lg) =
     (children @ inlineRuns images subTokens, lg @ inlineLogs images subTokens)"
proof (induction subTokens arbitrary: children lg)
  case Nil
  show ?case by (simp add: inlineRuns_simps inlineLogs_simps)
next
  case (Cons t ts)
  obtain runs msgs where t: "convertSubToken images t = (runs, msgs)"
    by (cases "convertSubToken images t")
  show ?case
    by (simp add: t Cons.IH inlineRuns_simps inlineLogs_simps)
qed

lemma documentBlocks_simps:
  "documentBlocks images [] = []"
  "documentBlocks images (t # ts) = fst (convertToken images t) @ documentBlocks images ts"
  "documentBlocks images (ts @ us) = documentBlocks images ts @ documentBlocks images us"
  by (simp_all add: documentBlocks_def)

lemma documentLogs_simps:
  "documentLogs images [] = []"
  "documentLogs images (t # ts) = snd (convertToken images t) @ documentLogs images ts"
  "documentLogs images (ts @ us) = documentLogs images ts @ documentLogs images us"
  by (simp_all add: documentLogs_def)

lemma tokenLoop_eq:
  "tokenLoop images tokens (sections, lg) =
     (sections @ documentBlocks images tokens, lg @ documentLogs images tokens)"
proof (induction tokens arbitrary: sections lg)
  case Nil
  show ?case by (simp add: documentBlocks_simps documentLogs_simps)
next
  case (Cons t ts)
  obtain paras msgs where t: "convertToken images t = (paras, msgs)"
    by (cases "convertToken images t")
  show ?case
    by (simp add: t Cons.IH documentBlocks_simps documentLogs_simps)
qed

lemma convertToDocx_eq:
  "convertToDocx lexer toBlob markdown images lg =
     (toBlob (documentBlocks images (lexer markdown)),
      lg @ [(''Initializing DOCX engine...'', Info)] @ documentLogs images (lexer markdown)
         @ [(''Finalizing DOCX binary data...'', Info)])"
  by (simp add: convertToDocx_def tokenLoop_eq)

lemma ImageRun_of_subToken:
  assumes "ImageRun d w h \<in> set (fst (convertSubToken images t))"
  shows "w = 500 \<and> h = 300 \<and> (\<exists>href. t = ImageSub href \<and> resolveImage images href = Some d)"
  using assms by (cases t) (auto split: option.splits)

lemma ImageRun_in_inlineRuns:
  assumes "ImageRun d w h \<in> set (inlineRuns images subTokens)"
  shows "w = 500 \<and> h = 300
    \<and> (\<exists>href. ImageSub href \<in> set subTokens \<and> resolveImage images href = Some d)"
proof -
  from assms obtain t where "t \<in> set subTokens"
    and "ImageRun d w h \<in> set (fst (convertSubToken images t))"
    by (auto simp: inlineRuns_def)
  with ImageRun_of_subToken [of d w h images t] show ?thesis
    by auto
qed

lemma ImageRun_not_in_codeRuns: "ImageRun d w h \<notin> set (codeRuns text)"
  by (auto simp: codeRuns_def)

lemma ImageRun_of_token:
  assumes "p \<in> set (fst (convertToken images t))"
    and "p_children p = Some children"
    and "ImageRun d w h \<in> set children"
  shows "w = 500 \<and> h = 300 \<and> (\<exists>href. resolveImage images href = Some d)"
proof (cases t)
  case (ParagraphTok tokens raw)
  show ?thesis
  proof (cases tokens)
    case None
    with ParagraphTok assms show ?thesis by auto
  next
    case (Some subTokens)
    with ParagraphTok assms have "ImageRun d w h \<in> set (inlineRuns images subTokens)"
      by (auto simp: paragraphChildren_eq)
    with ImageRun_in_inlineRuns [of d w h images subTokens] show ?thesis
      by auto
  qed
next
  case (CodeTok code)
  with assms show ?thesis by (auto simp: ImageRun_not_in_codeRuns)
qed (use assms in \<open>auto simp: emptyParagraph_def split: option.splits if_splits\<close>)

lemma ImageRun_in_document:
  assumes "p \<in> set (documentBlocks images tokens)"
    and "p_children p = Some children"
    and "ImageRun d w h \<in> set children"
  shows "w = 500 \<and> h = 300 \<and> (\<exists>href. resolveImage images href = Some d)"
proof -
  from assms(1) obtain t where "p \<in> set (fst (convertToken images t))"
    by (auto simp: documentBlocks_def)
  from ImageRun_of_token [OF this assms(2,3)] show ?thesis .
qed


lemma split_length: "length (split sep s) = Suc (count_list s sep)"
proof (induction s)
  case Nil
  show ?case by simp
next
  case (Cons c s)
  then show ?case
    by (cases "split sep s") auto
qed

lemma split_segments_no_sep: "seg \<in> set (split sep s) \<Longrightarrow> sep \<notin> set seg"
proof (induction s arbitrary: seg)
  case Nil
  then show ?case by simp
next
  case (Cons c s)
  then show ?case
    by (cases "split sep s") (auto split: if_splits)
qed

lemma split_join: "tl (concat (map (\<lambda>seg. sep # seg) (split sep s))) = s"
proof (induction s)
  case Nil
  show ?case by simp
next
  case (Cons c s)
  then show ?case
    by (cases "split sep s") (auto simp: split_not_Nil)
qed

lemma map_snd_enumerate_eq: "map (\<lambda>(i, x). f x) (enumerate n xs) = map f xs"
  by (induction xs arbitrary: n) simp_all

lemma map_fst_enumerate_pos:
  "0 < n \<Longrightarrow> map (\<lambda>(i, x). if 0 < i then c else d) (enumerate n xs) = replicate (length xs) c"
  by (induction xs arbitrary: n) simp_all

lemma codeRuns_text: "map runText (codeRuns text) = map Some (split (CHR 0x0A) text)"
  by (simp add: codeRuns_def comp_def case_prod_unfold emptyRun_def)
     (simp add: map_snd_enumerate_eq [of Some, unfolded case_prod_unfold])

lemma codeRuns_breaks:
  "map runBreaks (codeRuns text) = 0 # replicate (length (split (CHR 0x0A) text) - 1) 1"
proof -
  obtain l ls where ls: "split (CHR 0x0A) text = l # ls"
    using split_not_Nil [of "CHR 0x0A" "text"] by (cases "split (CHR 0x0A) text") auto
  have "map runBreaks (codeRuns text)
      = map (\<lambda>(i, x). if 0 < i then 1 else 0) (enumerate 0 (l # ls))"
    by (simp add: codeRuns_def comp_def case_prod_unfold emptyRun_def ls)
  also have "\<dots> = 0 # replicate (length ls) 1"
    by (simp add: map_fst_enumerate_pos)
  finally show ?thesis
    by (simp add: ls)
qed

text \<open>
  C4. A code token whose text splits at the newlines into \<open>k\<close> lines (\<open>k\<close> is one more
  than the number of newlines) produces one paragraph whose children are \<open>k\<close> text
  runs carrying the lines in their order; the first run has no break and each later
  run has exactly one, so there are \<open>k - 1\<close> breaks.
\<close>

theorem code_block_runs:
  "map p_children (fst (convertToken images (CodeTok text))) = [Some (codeRuns text)]
   \<and> map runText (codeRuns text) = map Some (split (CHR 0x0A) text)
   \<and> length (codeRuns text) = length (split (CHR 0x0A) text)
   \<and> map runBreaks (codeRuns text) = 0 # replicate (length (split (CHR 0x0A) text) - 1) 1
   \<and> sum_list (map runBreaks (codeRuns text)) = length (split (CHR 0x0A) text) - 1
   \<and> length (split (CHR 0x0A) text) = Suc (count_list text (CHR 0x0A))"
proof -
  have "length (codeRuns text) = length (split (CHR 0x0A) text)"
    by (simp add: codeRuns_def)
  moreover have "sum_list (map runBreaks (codeRuns text)) = length (split (CHR 0x0A) text) - 1"
    by (simp add: codeRuns_breaks sum_list_replicate)
  moreover have "map p_children (fst (convertToken images (CodeTok text))) = [Some (codeRuns text)]"
    by (simp add: emptyParagraph_def)
  ultimately show ?thesis
    by (simp only: codeRuns_text codeRuns_breaks split_length simp_thms)
qed

lemma heading_clamp: "1 \<le> d \<Longrightarrow> levelNumber (heading d) = min d 4"
  by (simp add: heading_def)

text \<open>
  C8. A heading token of depth \<open>d > 4\<close> produces the paragraph that depth 4 produces:
  its level is \<open>HEADING_4\<close>, the largest of the levels 1 to 4.
\<close>

theorem heading_depth_clamped:
  assumes "4 < d"
  shows "convertToken images (HeadingTok d text) = convertToken images (HeadingTok 4 text)
    \<and> map p_heading (fst (convertToken images (HeadingTok d text))) = [Some HEADING_4]
    \<and> levelNumber (heading d) = min d 4"
  using assms by (simp add: heading_def emptyParagraph_def)

theorem heading_depth_clamped_witness:
  "map p_heading (fst (convertToken [] (HeadingTok 6 ''Deep''))) = [Some HEADING_4]
   \<and> convertToken [] (HeadingTok 6 ''Deep'') = convertToken [] (HeadingTok 4 ''Deep'')"
proof -
  have h: "(4::nat) < 6" by simp
  from heading_depth_clamped [OF h, of "[]" "''Deep''"] show ?thesis
    by (simp add: heading_def)
qed




text \<open>
  C2. An inline image whose href fails all four steps pushes one bold red text run whose
  text is the href between \<^verbatim>\<open>[IMAGE NOT LOADED: \<close> and \<^verbatim>\<open>]\<close>, framed by newlines,
  and logs one warning; no image run is pushed for it. Compilation goes on: the runs
  of the children before and after it stand around the marker in the paragraph, the
  paragraphs of the tokens before and after stand around that paragraph in the
  document, and the document is handed to the encoder, whose failure is the only one
  of the function. An image run of a compiled document always carries the bytes that
  the resolver returned for some href.
\<close>

theorem unresolved_image_marker:
  fixes href :: string
  defines "marker \<equiv> TextRun (emptyRun\<lparr>
      tr_text := Some (CHR 0x0A # ''[IMAGE NOT LOADED: '' @ href @ '']'' @ [CHR 0x0A]),
      tr_color := Some ''FF0000'', tr_bold := True\<rparr>)"
    and "warning \<equiv> (''Image link broken or missing: '' @ href, Warning)"
  assumes "resolveImage images href = None"
  shows "convertSubToken images (ImageSub href) = ([marker], [warning])
    \<and> paragraphChildren images (pre @ ImageSub href # post) ([], []) =
        (inlineRuns images pre @ marker # inlineRuns images post,
         inlineLogs images pre @ warning # inlineLogs images post)
    \<and> tokenLoop images
          (before @ ParagraphTok (Some (pre @ ImageSub href # post)) raw # after) ([], lg) =
        (documentBlocks images before
           @ emptyParagraph\<lparr>
               p_children := Some (inlineRuns images pre @ marker # inlineRuns images post),
               p_spacing := Some \<lparr>sp_before = None, sp_after = Some 150, sp_line = None\<rparr>\<rparr>
           # documentBlocks images after,
         lg @ documentLogs images before
           @ (inlineLogs images pre @ warning # inlineLogs images post)
           @ documentLogs images after)
    \<and> fst (convertToDocx lexer toBlob markdown images lg) =
        toBlob (documentBlocks images (lexer markdown))
    \<and> (\<forall>p \<in> set (documentBlocks images tokens). \<forall>children d w h.
          p_children p = Some children \<longrightarrow> ImageRun d w h \<in> set children
            \<longrightarrow> (\<exists>href'. resolveImage images href' = Some d))"
proof -
  have one: "convertSubToken images (ImageSub href) = ([marker], [warning])"
    using assms by simp
  have para: "paragraphChildren images (pre @ ImageSub href # post) ([], []) =
        (inlineRuns images pre @ marker # inlineRuns images post,
         inlineLogs images pre @ warning # inlineLogs images post)"
    by (simp add: paragraphChildren_eq inlineRuns_simps inlineLogs_simps one
        del: convertSubToken.simps)
  have doc: "tokenLoop images
          (before @ ParagraphTok (Some (pre @ ImageSub href # post)) raw # after) ([], lg) =
        (documentBlocks images before
           @ emptyParagraph\<lparr>
               p_children := Some (inlineRuns images pre @ marker # inlineRuns images post),
               p_spacing := Some \<lparr>sp_before = None, sp_after = Some 150, sp_line = None\<rparr>\<rparr>
           # documentBlocks images after,
         lg @ documentLogs images before
           @ (inlineLogs images pre @ warning # inlineLogs images post)
           @ documentLogs images after)"
    by (simp add: tokenLoop_eq documentBlocks_simps documentLogs_simps para)
  have enc: "fst (convertToDocx lexer toBlob markdown images lg) =
        toBlob (documentBlocks images (lexer markdown))"
    by (simp add: convertToDocx_eq)
  have img: "\<forall>p \<in> set (documentBlocks images tokens). \<forall>children d w h.
          p_children p = Some children \<longrightarrow> ImageRun d w h \<in> set children
            \<longrightarrow> (\<exists>href'. resolveImage images href' = Some d)"
    using ImageRun_in_document [of _ images tokens] by blast
  from one para doc enc img show ?thesis
    by (intro conjI)
qed

theorem unresolved_image_marker_witness:
  "convertToken [(''img/a.png'', [1, 2, 3])]
     (ParagraphTok (Some [TextSub ''See '', ImageSub ''b.png'', ImageSub ''/img/a.png'']) ''raw'') =
     ([emptyParagraph\<lparr>
         p_children := Some
           [TextRun (emptyRun\<lparr>tr_text := Some ''See ''\<rparr>),
            TextRun (emptyRun\<lparr>
              tr_text := Some (CHR 0x0A # ''[IMAGE NOT LOADED: b.png]'' @ [CHR 0x0A]),
              tr_color := Some ''FF0000'', tr_bold := True\<rparr>),
            ImageRun [1, 2, 3] 500 300],
         p_spacing := Some \<lparr>sp_before = None, sp_after = Some 150, sp_line = None\<rparr>\<rparr>],
      [(''Image link broken or missing: b.png'', Warning),
       (''Matched asset: /img/a.png'', Success)])"
proof -
  let ?images = "[(''img/a.png'', [1, 2, 3 :: 8 word])]"
  have miss: "resolveImage ?images ''b.png'' = None"
    by (simp add: resolveImage_def has_def get_def normalizeHref_def startsWith_def
        fileName_def endsWith_def)
  have hit: "resolveImage ?images ''/img/a.png'' = Some [1, 2, 3]"
    by (simp add: resolveImage_def has_def get_def normalizeHref_def startsWith_def)
  from unresolved_image_marker [OF miss, of "[TextSub ''See '']" "[ImageSub ''/img/a.png'']",
      THEN conjunct2, THEN conjunct1]
  have "paragraphChildren ?images
      [TextSub ''See '', ImageSub ''b.png'', ImageSub ''/img/a.png''] ([], []) =
    ([TextRun (emptyRun\<lparr>tr_text := Some ''See ''\<rparr>),
      TextRun (emptyRun\<lparr>
        tr_text := Some (CHR 0x0A # ''[IMAGE NOT LOADED: b.png]'' @ [CHR 0x0A]),
        tr_color := Some ''FF0000'', tr_bold := True\<rparr>),
      ImageRun [1, 2, 3] 500 300],
     [(''Image link broken or missing: b.png'', Warning),
      (''Matched asset: /img/a.png'', Success)])"
    by (simp add: inlineRuns_simps inlineLogs_simps hit)
  then show ?thesis
    by simp
qed

section \<open>Properties of the escape cleanup\<close>

lemma removeBackslashBefore_other:
  "c \<noteq> CHR 0x5C \<Longrightarrow> removeBackslashBefore cs (c # s) = c # removeBackslashBefore cs s"
  by (cases s) simp_all

lemma removeBackslashBefore_keep:
  "s = [] \<or> hd s \<notin> set cs \<Longrightarrow>
     removeBackslashBefore cs (c # s) = c # removeBackslashBefore cs s"
  by (cases s) auto

lemma removeBackslashBefore_hd:
  "removeBackslashBefore cs (c # s) \<noteq> []
   \<and> (hd (removeBackslashBefore cs (c # s)) = c
        \<or> c = CHR 0x5C \<and> hd (removeBackslashBefore cs (c # s)) \<in> set cs)"
  by (cases s) auto

lemma removeBackslashBefore_fuse:
  assumes "CHR 0x5C \<notin> set cs1" and "CHR 0x5C \<notin> set cs2" and "set cs1 \<inter> set cs2 = {}"
  shows "removeBackslashBefore cs2 (removeBackslashBefore cs1 s)
    = removeBackslashBefore (cs1 @ cs2) s"
proof (induction "cs1 @ cs2" s rule: removeBackslashBefore.induct)
  case 1
  show ?case by simp
next
  case (2 c)
  show ?case by simp
next
  case (3 c d s)
  show ?case
  proof (cases "c = CHR 0x5C \<and> d \<in> set (cs1 @ cs2)")
    case True
    with assms have d: "d \<noteq> CHR 0x5C" by auto
    from True 3 have IH: "removeBackslashBefore cs2 (removeBackslashBefore cs1 s)
        = removeBackslashBefore (cs1 @ cs2) s"
      by simp
    show ?thesis
    proof (cases "d \<in> set cs1")
      case True
      with \<open>c = CHR 0x5C \<and> d \<in> set (cs1 @ cs2)\<close> d IH show ?thesis
        by (simp add: removeBackslashBefore_other)
    next
      case False
      with \<open>c = CHR 0x5C \<and> d \<in> set (cs1 @ cs2)\<close> d IH show ?thesis
        by (simp add: removeBackslashBefore_other)
    qed
  next
    case False
    with 3 have IH: "removeBackslashBefore cs2 (removeBackslashBefore cs1 (d # s))
        = removeBackslashBefore (cs1 @ cs2) (d # s)"
      by simp
    let ?Y = "removeBackslashBefore cs1 (d # s)"
    have "hd ?Y \<notin> set cs2" if "c = CHR 0x5C"
    proof -
      from that False have d: "d \<notin> set cs1" "d \<notin> set cs2" by auto
      from removeBackslashBefore_hd [of cs1 d s]
      consider "hd ?Y = d" | "d = CHR 0x5C" "hd ?Y \<in> set cs1" by blast
      then show ?thesis
      proof cases
        case 1
        with d show ?thesis by simp
      next
        case 2
        with assms(3) show ?thesis by auto
      qed
    qed
    then have "removeBackslashBefore cs2 (c # ?Y) = c # removeBackslashBefore cs2 ?Y"
      by (cases "c = CHR 0x5C")
        (simp_all add: removeBackslashBefore_keep removeBackslashBefore_other)
    moreover from False have "removeBackslashBefore cs1 (c # d # s) = c # ?Y"
      by auto
    moreover from False have "removeBackslashBefore (cs1 @ cs2) (c # d # s)
        = c # removeBackslashBefore (cs1 @ cs2) (d # s)"
      by auto
    ultimately show ?thesis
      using IH by simp
  qed
qed

lemma escapeCleanup_one_pass:
  "escapeCleanup s = removeBackslashBefore (''_()[]'' @ [CHR 0x22, CHR 0x27] @ ''.-'') s"
proof -
  have "removeBackslashBefore ''.'' (removeBackslashBefore (''_()[]'' @ [CHR 0x22, CHR 0x27]) s)
      = removeBackslashBefore ((''_()[]'' @ [CHR 0x22, CHR 0x27]) @ ''.'') s"
    by (rule removeBackslashBefore_fuse) simp_all
  moreover have "removeBackslashBefore ''-''
        (removeBackslashBefore ((''_()[]'' @ [CHR 0x22, CHR 0x27]) @ ''.'') s)
      = removeBackslashBefore (((''_()[]'' @ [CHR 0x22, CHR 0x27]) @ ''.'') @ ''-'') s"
    by (rule removeBackslashBefore_fuse) simp_all
  ultimately show ?thesis
    by (simp add: escapeCleanup_def)
qed

lemma removeBackslashBefore_strip:
  assumes "CHR 0x5C \<notin> set cs" and "\<And>c. escapable c \<longleftrightarrow> c \<in> set cs"
  shows "removeBackslashBefore cs s = stripEscapes s"
  using assms
proof (induction cs s rule: removeBackslashBefore.induct)
  case (1 cs)
  show ?case by simp
next
  case (2 cs c)
  show ?case by simp
next
  case (3 cs c d s)
  show ?case
  proof (cases "c = CHR 0x5C \<and> d \<in> set cs")
    case True
    with "3.prems" have "d \<noteq> CHR 0x5C" and "escapable d" by auto
    moreover from True 3 have "removeBackslashBefore cs s = stripEscapes s" by simp
    ultimately show ?thesis
      using True by simp
  next
    case False
    with 3 have "removeBackslashBefore cs (d # s) = stripEscapes (d # s)" by simp
    with False "3.prems" show ?thesis
      by auto
  qed
qed

text \<open>
  C7. The three replacements of the escape cleanup together remove a backslash exactly
  when the character after it is an underscore, a parenthesis, a bracket, a double
  quote, a single quote, a period or a hyphen, and change nothing else:
  \<^verbatim>\<open>p\_value\<close> becomes \<^verbatim>\<open>p_value\<close>, \<^verbatim>\<open>print\(x\)\<close> becomes \<^verbatim>\<open>print(x)\<close>, and the
  backslash of \<^verbatim>\<open>a\nb\<close> (a backslash and the letter n) stays.
\<close>

theorem escape_cleanup_exact:
  "escapeCleanup s = stripEscapes s
   \<and> escapeCleanup (''p'' @ [CHR 0x5C] @ ''_value'') = ''p_value''
   \<and> escapeCleanup (''print'' @ [CHR 0x5C] @ ''(x'' @ [CHR 0x5C] @ '')'') = ''print(x)''
   \<and> escapeCleanup (''a'' @ [CHR 0x5C] @ ''nb'') = ''a'' @ [CHR 0x5C] @ ''nb''"
proof -
  have "escapeCleanup s = stripEscapes s"
    unfolding escapeCleanup_one_pass
    by (rule removeBackslashBefore_strip) (auto simp: escapable_def)
  moreover have "escapeCleanup (''p'' @ [CHR 0x5C] @ ''_value'') = ''p_value''"
    by (simp add: escapeCleanup_def)
  moreover have
    "escapeCleanup (''print'' @ [CHR 0x5C] @ ''(x'' @ [CHR 0x5C] @ '')'') = ''print(x)''"
    by (simp add: escapeCleanup_def)
  moreover have "escapeCleanup (''a'' @ [CHR 0x5C] @ ''nb'') = ''a'' @ [CHR 0x5C] @ ''nb''"
    by (simp add: escapeCleanup_def)
  ultimately show ?thesis
    by (intro conjI)
qed

section \<open>Properties of the extractor\<close>

lemma runDecoder_ImgElement:
  "runDecoder (ImgElement continue) (imageCounter, lg) =
     runDecoder (continue (placeholderSrc imageCounter))
       (imageCounter + 1, lg @ [assetDetected imageCounter])"
  by (simp add: convertImage_def)


lemma runDecoder_state:
  "snd (runDecoder d (imageCounter, lg)) =
     (imageCounter + length (assignedIds d imageCounter),
      lg @ map assetDetected (assignedIds d imageCounter))"
proof (induction d arbitrary: imageCounter lg)
  case (ImgElement continue)
  show ?case
    unfolding runDecoder_ImgElement
    by (subst ImgElement.IH) simp_all
qed simp_all

lemma runDecoder_result:
  "fst (runDecoder d (imageCounter, lg)) = fst (runDecoder d (imageCounter, []))"
proof (induction d arbitrary: imageCounter lg)
  case (ImgElement continue)
  have "fst (runDecoder (continue (placeholderSrc imageCounter))
          (imageCounter + 1, lg @ [assetDetected imageCounter]))
      = fst (runDecoder (continue (placeholderSrc imageCounter)) (imageCounter + 1, []))"
    by (rule ImgElement.IH) simp
  moreover have "fst (runDecoder (continue (placeholderSrc imageCounter))
          (imageCounter + 1, [] @ [assetDetected imageCounter]))
      = fst (runDecoder (continue (placeholderSrc imageCounter)) (imageCounter + 1, []))"
    by (rule ImgElement.IH) simp
  ultimately show ?case
    unfolding runDecoder_ImgElement by simp
qed simp_all


text \<open>The closing entries of the log: those of success, or the one of the failure.\<close>

lemma convertDocxToMd_eq:
  "convertDocxToMd convertToMarkdown arrayBuffer lg =
     (case fst (runDecoder (convertToMarkdown arrayBuffer) (1, [])) of
        Inr markdown \<Rightarrow>
          (Inr (postProcess markdown),
           lg @ (''Analyzing Word structure and identifying assets...'', Info)
              # map assetDetected (assignedIds (convertToMarkdown arrayBuffer) 1)
              @ [(''Refining document structure...'', Info),
                 (''Base Markdown generated successfully.'', Success)])
      | Inl error \<Rightarrow>
          (Inl error,
           lg @ (''Analyzing Word structure and identifying assets...'', Info)
              # map assetDetected (assignedIds (convertToMarkdown arrayBuffer) 1)
              @ [(''Extraction failed: '' @
                    (case error of
                       ErrorInstance message \<Rightarrow> message
                     | OtherThrown v \<Rightarrow> ''Unknown error''), Error)]))"
proof -
  let ?start = "lg @ [(''Analyzing Word structure and identifying assets...'', Info)]"
  obtain res st where run: "runDecoder (convertToMarkdown arrayBuffer) (1, ?start) = (res, st)"
    by (cases "runDecoder (convertToMarkdown arrayBuffer) (1, ?start)")
  have st: "st = (1 + length (assignedIds (convertToMarkdown arrayBuffer) 1),
      ?start @ map assetDetected (assignedIds (convertToMarkdown arrayBuffer) 1))"
    using runDecoder_state [of "convertToMarkdown arrayBuffer" 1 ?start] unfolding run by simp
  have res: "fst (runDecoder (convertToMarkdown arrayBuffer) (1, [])) = res"
    using runDecoder_result [of "convertToMarkdown arrayBuffer" 1 ?start] unfolding run by simp
  show ?thesis
    unfolding convertDocxToMd_def Let_def run res st
    by (cases res) simp_all
qed


text \<open>A run with two images, called twice in a row on the same log.\<close>

lemma placeholder_numbering_example:
  "convertDocxToMd
     (\<lambda>b. ImgElement (\<lambda>s1. ImgElement (\<lambda>s2. Resolved (s1 @ '' '' @ s2)))) [] [] =
     (Inr ''IMAGE_PATH_PLACEHOLDER_1 IMAGE_PATH_PLACEHOLDER_2'',
      [(''Analyzing Word structure and identifying assets...'', Info),
       (''Asset detected: Image #1'', Success),
       (''Asset detected: Image #2'', Success),
       (''Refining document structure...'', Info),
       (''Base Markdown generated successfully.'', Success)])"
  by code_simp

text \<open>
  C9. When the run of the decoder ends with a thrown error, the call returns no
  markdown: it throws that same error, after logging, as its last entry, one entry of
  level error with the message of the error (or \<^verbatim>\<open>Unknown error\<close> when the value
  thrown is not an \<^verbatim>\<open>Error\<close>).
\<close>

theorem decode_failure_rethrown:
  assumes "fst (runDecoder (convertToMarkdown arrayBuffer) (1, [])) = Inl e"
  shows "fst (convertDocxToMd convertToMarkdown arrayBuffer lg) = Inl e
    \<and> snd (convertDocxToMd convertToMarkdown arrayBuffer lg) =
        lg @ (''Analyzing Word structure and identifying assets...'', Info)
           # map assetDetected (assignedIds (convertToMarkdown arrayBuffer) 1)
           @ [(''Extraction failed: '' @
                 (case e of ErrorInstance message \<Rightarrow> message
                  | OtherThrown v \<Rightarrow> ''Unknown error''), Error)]
    \<and> last (snd (convertDocxToMd convertToMarkdown arrayBuffer lg)) =
        (''Extraction failed: '' @
           (case e of ErrorInstance message \<Rightarrow> message | OtherThrown v \<Rightarrow> ''Unknown error''),
         Error)"
  unfolding convertDocxToMd_eq [of convertToMarkdown arrayBuffer lg] assms
  by simp

theorem decode_failure_rethrown_witness:
  "convertDocxToMd (\<lambda>b. ImgElement (\<lambda>src. Rejected (ErrorInstance ''Corrupted zip''))) [80, 75]
     [(''Reading file'', Info)] =
     (Inl (ErrorInstance ''Corrupted zip''),
      [(''Reading file'', Info),
       (''Analyzing Word structure and identifying assets...'', Info),
       (''Asset detected: Image #1'', Success),
       (''Extraction failed: Corrupted zip'', Error)])"
proof -
  let ?dec = "\<lambda>b :: arrayBuffer. ImgElement (\<lambda>src. Rejected (ErrorInstance ''Corrupted zip''))"
  have h: "fst (runDecoder (?dec [80, 75]) (1, [])) = Inl (ErrorInstance ''Corrupted zip'')"
    by (simp add: convertImage_def)
  from decode_failure_rethrown [OF h, where lg = "[(''Reading file'', Info)]"]
  show ?thesis
    by (simp add: prod_eq_iff assetDetected_def numberToString.simps digitChar_def)
qed

section \<open>Properties of the placeholder rewriting\<close>


lemma startsWith_append_same: "startsWith (w @ s) w"
  by (simp add: startsWith_def)

























lemma numberToString_digits:
  "numberToString n \<noteq> [] \<and> (\<forall>c\<in>set (numberToString n). isDigit c)"
proof (induction n rule: numberToString.induct)
  case (1 n)
  have d: "isDigit (digitChar k)" if "k < 10" for k
  proof -
    from that have "k \<in> {0, 1, 2, 3, 4, 5, 6, 7, 8, 9}" by auto
    then show ?thesis
      by (auto simp: isDigit_def digitChar_def)
  qed
  show ?case
  proof (cases "n < 10")
    case True
    then have "numberToString n = [digitChar n]"
      by (subst numberToString.simps) simp
    with True d show ?thesis
      by simp
  next
    case False
    then have "numberToString n = numberToString (n div 10) @ [digitChar (n mod 10)]"
      by (subst numberToString.simps) simp
    with False 1 d [of "n mod 10"] show ?thesis
      by simp
  qed
qed








text \<open>The same end to end: a decoder that writes its one image with the alternative
  text \<^verbatim>\<open>chart\<close>.\<close>

lemma alt_text_extraction_example:
  "convertDocxToMd (\<lambda>b. ImgElement (\<lambda>src. Resolved (''![chart]('' @ src @ '')''))) [80, 75] [] =
     (Inr ''![chart](IMAGE_PATH_PLACEHOLDER_1)'',
      [(''Analyzing Word structure and identifying assets...'', Info),
       (''Asset detected: Image #1'', Success),
       (''Refining document structure...'', Info),
       (''Base Markdown generated successfully.'', Success)])"
  by code_simp

end
